theory Spec2Isabelle
  imports Main "HOL-Library.Multiset"
begin

section \<open>JavaScript values used by the feed code\<close>

text \<open>
  The posts handled by \<^verbatim>\<open>getPosts\<close> are plain JavaScript objects whose properties are
  typed \<^verbatim>\<open>string\<close> by \<^verbatim>\<open>interface Post\<close>. An object is a finite map from property names
  to strings; reading a property that the object does not have gives \<^verbatim>\<open>undefined\<close>, which
  is \<open>None\<close> here.
\<close>

type_synonym obj = "string \<rightharpoonup> string"

text \<open>\<^verbatim>\<open>ToString\<close>, as applied by \<^verbatim>\<open>Date.parse\<close> and by template literals to their argument.\<close>

definition ToString :: "string option \<Rightarrow> string" where
  "ToString v = (case v of None \<Rightarrow> ''undefined'' | Some s \<Rightarrow> s)"

text \<open>
  A JavaScript number that is either an integral time value or \<^verbatim>\<open>NaN\<close> (\<open>None\<close>).
  The operator \<^verbatim>\<open><\<close> is false as soon as one operand is \<^verbatim>\<open>NaN\<close>.
\<close>

fun js_less :: "int option \<Rightarrow> int option \<Rightarrow> bool" where
  "js_less (Some x) (Some y) = (x < y)"
| "js_less _ _ = False"

section \<open>The platform: file system, gray-matter, Date.parse, Array.prototype.sort\<close>

datatype error = ReaddirError | ReadError | ParseError

record dirent =
  name :: string
  isDirectory :: bool

text \<open>
  What \<^verbatim>\<open>getPosts\<close> imports and calls but does not define is a parameter of the model:
  \<^item> \<open>readdir\<close>: \<^verbatim>\<open>readdir(path, {withFileTypes: true})\<close>, \<open>None\<close> when the promise rejects;
  \<^item> \<open>readFile\<close>: \<^verbatim>\<open>readFile(path, "utf8")\<close>, \<open>None\<close> when the file is missing or unreadable;
  \<^item> \<open>matter\<close>: the \<^verbatim>\<open>data\<close> object that gray-matter extracts from a document, \<open>None\<close>
    when it throws on a malformed front-matter block;
  \<^item> \<open>Date_parse\<close>: \<^verbatim>\<open>Date.parse\<close> on a string, \<open>None\<close> for \<^verbatim>\<open>NaN\<close>.
\<close>

record runtime =
  readdir :: "string \<Rightarrow> dirent list option"
  readFile :: "string \<Rightarrow> string option"
  matter :: "string \<Rightarrow> obj option"
  Date_parse :: "string \<Rightarrow> int option"

text \<open>
  \<^verbatim>\<open>Array.prototype.sort(comparefn)\<close> is a builtin of the JavaScript engine. It is modelled
  by a stable insertion sort driven by the comparison function: the elements are taken
  left to right, and each one is placed behind the elements \<open>y\<close> of the sorted prefix
  for which \<open>comparefn y x \<le> 0\<close>. The engine is free in the order of the calls of the
  comparison function, and for a comparison function that is not consistent (the one of
  \<^verbatim>\<open>getPosts\<close> never answers \<open>0\<close>) also in the resulting order of the elements that it
  does not separate; the statements below do not depend on that order.
\<close>

fun place :: "('a \<Rightarrow> 'a \<Rightarrow> int) \<Rightarrow> 'a \<Rightarrow> 'a list \<Rightarrow> 'a list" where
  "place comparefn x [] = [x]"
| "place comparefn x (y # ys) =
     (if comparefn y x \<le> 0 then y # place comparefn x ys else x # y # ys)"

definition Array_sort :: "('a \<Rightarrow> 'a \<Rightarrow> int) \<Rightarrow> 'a list \<Rightarrow> 'a list" where
  "Array_sort comparefn xs = foldl (\<lambda>acc x. place comparefn x acc) [] xs"

section \<open>getPosts\<close>

text \<open>
  The comparison function of \<^verbatim>\<open>getPosts\<close>:
  \<^verbatim>\<open>(a, b) => Date.parse(a.date) < Date.parse(b.date) ? 1 : -1\<close>.
\<close>

definition comparefn :: "runtime \<Rightarrow> obj \<Rightarrow> obj \<Rightarrow> int" where
  "comparefn rt a b =
     (if js_less (Date_parse rt (ToString (a ''date''))) (Date_parse rt (ToString (b ''date'')))
      then 1 else - 1)"

text \<open>
  \<^verbatim>\<open>getPosts\<close>. \<^verbatim>\<open>Promise.all\<close> over the reads is \<open>those\<close>: one rejected read rejects the
  whole. The object literal \<^verbatim>\<open>{ slug, ...data }\<close> is the map with the one key \<open>slug\<close>,
  overridden by the properties of \<open>data\<close>. An exception of \<^verbatim>\<open>matter\<close> inside the callback
  of \<^verbatim>\<open>dirs.map\<close> leaves \<^verbatim>\<open>getPosts\<close>.
\<close>

definition getPosts :: "runtime \<Rightarrow> error + obj list" where
  "getPosts rt =
     (case readdir rt ''./public/'' of
        None \<Rightarrow> Inl ReaddirError
      | Some entries \<Rightarrow>
          let dirs = map name (filter isDirectory entries) in
          (case those (map (\<lambda>dir. readFile rt (''./public/'' @ dir @ ''/index.md'')) dirs) of
             None \<Rightarrow> Inl ReadError
           | Some fileContents \<Rightarrow>
               (case those (map (\<lambda>i. map_option (\<lambda>data. [''slug'' \<mapsto> dirs ! i] ++ data)
                                        (matter rt (fileContents ! i)))
                                [0..<length dirs]) of
                  None \<Rightarrow> Inl ParseError
                | Some posts \<Rightarrow> Inr (Array_sort (comparefn rt) posts))))"

section \<open>generateFeed\<close>

definition metadata_title :: string where
  "metadata_title = ''dragon-slayer '' @ [CHR 0xE2, CHR 0x80, CHR 0x94] @ '' A blog by Sriram''"

definition metadata_description :: string where
  "metadata_description = ''A blog by Sriram''"

definition site_url :: string where
  "site_url = ''https://github.psriram.com/''"

record FeedOptions =
  author_name :: string
  author_link :: string
  opt_description :: string
  favicon :: string
  feedLinks_atom :: string
  feedLinks_rss :: string
  generator :: string
  opt_id :: string
  image :: string
  opt_link :: string
  opt_title :: string

text \<open>A feed entry; \<open>item_date\<close> is the time value of the \<^verbatim>\<open>Date\<close>, \<open>None\<close> for an invalid date.\<close>

record Item =
  item_date :: "int option"
  item_description :: "string option"
  item_id :: string
  item_link :: string
  item_title :: "string option"

record Feed =
  options :: FeedOptions
  items :: "Item list"

definition feedOptions :: FeedOptions where
  "feedOptions =
     \<lparr> author_name = ''Sriram Prasanth'',
       author_link = site_url,
       opt_description = metadata_description,
       favicon = site_url @ ''/icon.jpeg'',
       feedLinks_atom = site_url @ ''atom.xml'',
       feedLinks_rss = site_url @ ''rss.xml'',
       generator = ''Feed for Node.js'',
       opt_id = site_url,
       image = ''https://avatars.githubusercontent.com/u/141391722'',
       opt_link = site_url,
       opt_title = metadata_title \<rparr>"

text \<open>\<^verbatim>\<open>new Feed(options)\<close> and \<^verbatim>\<open>feed.addItem(item)\<close> of the feed library.\<close>

definition new_Feed :: "FeedOptions \<Rightarrow> Feed" where
  "new_Feed opts = \<lparr> options = opts, items = [] \<rparr>"

definition addItem :: "Feed \<Rightarrow> Item \<Rightarrow> Feed" where
  "addItem feed item = feed\<lparr> items := items feed @ [item] \<rparr>"

text \<open>
  \<^verbatim>\<open>new Date(v)\<close>: a string is parsed as \<^verbatim>\<open>Date.parse\<close> parses it, \<^verbatim>\<open>undefined\<close> gives an
  invalid date.
\<close>

definition new_Date :: "runtime \<Rightarrow> string option \<Rightarrow> int option" where
  "new_Date rt v = (case v of None \<Rightarrow> None | Some s \<Rightarrow> Date_parse rt s)"

definition generateFeed :: "runtime \<Rightarrow> error + Feed" where
  "generateFeed rt =
     (case getPosts rt of
        Inl e \<Rightarrow> Inl e
      | Inr posts \<Rightarrow>
          Inr (foldl (\<lambda>feed post.
                 addItem feed
                   \<lparr> item_date = new_Date rt (post ''date''),
                     item_description = post ''spoiler'',
                     item_id = site_url @ ToString (post ''slug'') @ ''/'',
                     item_link = site_url @ ToString (post ''slug'') @ ''/'',
                     item_title = post ''title'' \<rparr>)
               (new_Feed feedOptions) posts))"

section \<open>Notions used in the statements\<close>

text \<open>The path of the source file of a post, and the directory names of a listing.\<close>

abbreviation (input) index_md :: "string \<Rightarrow> string" where
  "index_md dir \<equiv> ''./public/'' @ dir @ ''/index.md''"

abbreviation (input) dirs_of :: "dirent list \<Rightarrow> string list" where
  "dirs_of entries \<equiv> map name (filter isDirectory entries)"

text \<open>The timestamp that the comparison function reads off a post: \<^verbatim>\<open>Date.parse(p.date)\<close>.\<close>

definition post_time :: "runtime \<Rightarrow> obj \<Rightarrow> int option" where
  "post_time rt p = Date_parse rt (ToString (p ''date''))"

definition slugs :: "obj list \<Rightarrow> string option list" where
  "slugs posts = map (\<lambda>p. p ''slug'') posts"

section \<open>A sample site\<close>

text \<open>
  A small posts root, used to run the definitions: the documents, the \<^verbatim>\<open>data\<close> object that
  gray-matter returns for each of them, and the time values of the dates that occur
  (milliseconds since the epoch, UTC midnight of the day).
\<close>

definition old_md :: string where
  "old_md = ''---\<newline>title: Old\<newline>date: '2023-01-01'\<newline>spoiler: Then\<newline>---\<newline>Hello''"

definition new_md :: string where
  "new_md = ''---\<newline>title: New\<newline>date: '2024-06-01'\<newline>spoiler: Now\<newline>---\<newline>Hello''"

definition a_md :: string where
  "a_md = ''---\<newline>title: A\<newline>date: '2024-01-01'\<newline>spoiler: S\<newline>---\<newline>''"

definition b_md :: string where
  "b_md = ''---\<newline>slug: a\<newline>title: B\<newline>date: '2023-01-01'\<newline>spoiler: T\<newline>---\<newline>''"

definition bare_md :: string where
  "bare_md = ''---\<newline>youtube: xyz\<newline>---\<newline>''"

definition old_data :: obj where
  "old_data = [''title'' \<mapsto> ''Old'', ''date'' \<mapsto> ''2023-01-01'', ''spoiler'' \<mapsto> ''Then'']"

definition new_data :: obj where
  "new_data = [''title'' \<mapsto> ''New'', ''date'' \<mapsto> ''2024-06-01'', ''spoiler'' \<mapsto> ''Now'']"

definition a_data :: obj where
  "a_data = [''title'' \<mapsto> ''A'', ''date'' \<mapsto> ''2024-01-01'', ''spoiler'' \<mapsto> ''S'']"

definition b_data :: obj where
  "b_data = [''slug'' \<mapsto> ''a'', ''title'' \<mapsto> ''B'', ''date'' \<mapsto> ''2023-01-01'', ''spoiler'' \<mapsto> ''T'']"

definition bare_data :: obj where
  "bare_data = [''youtube'' \<mapsto> ''xyz'']"

definition demo_files :: "(string \<times> string) list" where
  "demo_files =
     [(''./public/old/index.md'', old_md),
      (''./public/new/index.md'', new_md),
      (''./public/a/index.md'', a_md),
      (''./public/b/index.md'', b_md),
      (''./public/bare/index.md'', bare_md)]"

definition demo_front_matter :: "(string \<times> obj) list" where
  "demo_front_matter =
     [(old_md, old_data), (new_md, new_data), (a_md, a_data), (b_md, b_data),
      (bare_md, bare_data)]"

definition demo_dates :: "(string \<times> int) list" where
  "demo_dates =
     [(''2023-01-01'', 1672531200000),
      (''2024-01-01'', 1704067200000),
      (''2024-06-01'', 1717200000000)]"

definition demo_runtime :: "dirent list \<Rightarrow> runtime" where
  "demo_runtime entries =
     \<lparr> readdir = (\<lambda>path. if path = ''./public/'' then Some entries else None),
       readFile = map_of demo_files,
       matter = map_of demo_front_matter,
       Date_parse = map_of demo_dates \<rparr>"

definition dir_entry :: "string \<Rightarrow> dirent" where
  "dir_entry n = \<lparr> name = n, isDirectory = True \<rparr>"

definition file_entry :: "string \<Rightarrow> dirent" where
  "file_entry n = \<lparr> name = n, isDirectory = False \<rparr>"

section \<open>Auxiliary facts\<close>

lemma those_eq_Some_iff: "those xs = Some ys \<longleftrightarrow> xs = map Some ys"
  by (induction xs arbitrary: ys) (auto split: option.splits)

lemma those_eq_None_iff: "those xs = None \<longleftrightarrow> None \<in> set xs"
  by (induction xs) (auto split: option.splits)

lemma map_index_eq_map2:
  "length ys = length xs \<Longrightarrow> map (\<lambda>i. f (xs ! i) (ys ! i)) [0..<length xs] = map2 f xs ys"
  by (rule nth_equalityI) auto

lemma mset_place: "mset (place c x xs) = add_mset x (mset xs)"
  by (induction xs) auto

lemma mset_foldl_place: "mset (foldl (\<lambda>acc x. place c x acc) acc xs) = mset acc + mset xs"
  by (induction xs arbitrary: acc) (auto simp: mset_place)

lemma mset_Array_sort: "mset (Array_sort c xs) = mset xs"
  by (simp add: Array_sort_def mset_foldl_place)

lemma set_place: "set (place c x xs) = insert x (set xs)"
  by (induction xs) auto

lemma sorted_place:
  assumes "\<forall>a\<in>insert x (set xs). \<forall>b\<in>insert x (set xs). (c a b \<le> 0) = (key b \<le> key a)"
    and "sorted_wrt (\<lambda>a b. key b \<le> key a) xs"
  shows "sorted_wrt (\<lambda>a b. (key b :: int) \<le> key a) (place c x xs)"
  using assms
proof (induction xs)
  case Nil
  then show ?case by simp
next
  case (Cons y ys)
  show ?case
  proof (cases "c y x \<le> 0")
    case True
    with Cons show ?thesis by (auto simp: set_place)
  next
    case False
    with Cons.prems have "key y < key x" by auto
    with Cons.prems False show ?thesis by fastforce
  qed
qed

lemma sorted_foldl_place:
  assumes "\<forall>a\<in>set acc \<union> set xs. \<forall>b\<in>set acc \<union> set xs. (c a b \<le> 0) = (key b \<le> key a)"
    and "sorted_wrt (\<lambda>a b. key b \<le> key a) acc"
  shows "sorted_wrt (\<lambda>a b. (key b :: int) \<le> key a) (foldl (\<lambda>acc x. place c x acc) acc xs)"
  using assms
proof (induction xs arbitrary: acc)
  case Nil
  then show ?case by simp
next
  case (Cons x xs)
  have "sorted_wrt (\<lambda>a b. key b \<le> key a) (place c x acc)"
    using Cons.prems by (intro sorted_place) auto
  moreover have "\<forall>a\<in>set (place c x acc) \<union> set xs. \<forall>b\<in>set (place c x acc) \<union> set xs.
      (c a b \<le> 0) = (key b \<le> key a)"
    using Cons.prems(1) by (auto simp: set_place)
  ultimately show ?case using Cons.IH by simp
qed

lemma sorted_Array_sort:
  assumes "\<forall>a\<in>set xs. \<forall>b\<in>set xs. (c a b \<le> 0) = (key b \<le> key a)"
  shows "sorted_wrt (\<lambda>a b. (key b :: int) \<le> key a) (Array_sort c xs)"
  unfolding Array_sort_def using assms by (intro sorted_foldl_place) auto

lemma map2_map_option_eq:
  assumes "length cs = length dirs"
  shows "map2 (\<lambda>dir c. map_option (g dir) (m c)) dirs cs = map Some ps
     \<longleftrightarrow> (\<exists>ds. map m cs = map Some ds \<and> ps = map2 g dirs ds)"
  using assms
proof (induction cs dirs arbitrary: ps rule: list_induct2)
  case Nil
  then show ?case by simp
next
  case (Cons c cs dir dirs)
  show ?case
  proof
    assume L: "map2 (\<lambda>dir c. map_option (g dir) (m c)) (dir # dirs) (c # cs) = map Some ps"
    then obtain p ps' where ps: "ps = p # ps'"
      by (cases ps) simp_all
    from L ps have hd: "map_option (g dir) (m c) = Some p"
      and tl: "map2 (\<lambda>dir c. map_option (g dir) (m c)) dirs cs = map Some ps'"
      by simp_all
    from hd obtain d where d: "m c = Some d" "p = g dir d"
      by (cases "m c") simp_all
    from tl Cons.IH [of ps'] obtain ds where ds: "map m cs = map Some ds" "ps' = map2 g dirs ds"
      by blast
    have "map m (c # cs) = map Some (d # ds) \<and> ps = map2 g (dir # dirs) (d # ds)"
      using d ds ps by simp
    then show "\<exists>ds. map m (c # cs) = map Some ds \<and> ps = map2 g (dir # dirs) ds" ..
  next
    assume "\<exists>ds. map m (c # cs) = map Some ds \<and> ps = map2 g (dir # dirs) ds"
    then obtain ds0 where R: "map m (c # cs) = map Some ds0" "ps = map2 g (dir # dirs) ds0"
      by blast
    then obtain d ds where ds0: "ds0 = d # ds"
      by (cases ds0) simp_all
    from R ds0 have d: "m c = Some d" and ds: "map m cs = map Some ds"
      and ps: "ps = g dir d # map2 g dirs ds"
      by simp_all
    from ds Cons.IH [of "map2 g dirs ds"]
    have "map2 (\<lambda>dir c. map_option (g dir) (m c)) dirs cs = map Some (map2 g dirs ds)"
      by blast
    with d ps show "map2 (\<lambda>dir c. map_option (g dir) (m c)) (dir # dirs) (c # cs) = map Some ps"
      by simp
  qed
qed

lemma getPosts_InrI:
  assumes rd: "readdir rt ''./public/'' = Some entries"
    and cs: "map (\<lambda>dir. readFile rt (index_md dir)) (dirs_of entries) = map Some cs"
    and ds: "map (matter rt) cs = map Some ds"
  shows "getPosts rt = Inr (Array_sort (comparefn rt)
           (map2 (\<lambda>dir data. [''slug'' \<mapsto> dir] ++ data) (dirs_of entries) ds))"
proof -
  let ?dirs = "dirs_of entries"
  let ?g = "\<lambda>dir data. [''slug'' \<mapsto> dir] ++ (data :: obj)"
  have len: "length cs = length ?dirs"
    using arg_cong [OF cs, of length] by (simp only: length_map)
  have t1: "those (map (\<lambda>dir. readFile rt (index_md dir)) ?dirs) = Some cs"
    using cs by (simp only: those_eq_Some_iff)
  have idx: "map (\<lambda>i. map_option (?g (?dirs ! i)) (matter rt (cs ! i))) [0..<length ?dirs]
             = map2 (\<lambda>dir c. map_option (?g dir) (matter rt c)) ?dirs cs"
    using len by (rule map_index_eq_map2)
  have "map2 (\<lambda>dir c. map_option (?g dir) (matter rt c)) ?dirs cs = map Some (map2 ?g ?dirs ds)"
    using map2_map_option_eq [OF len, of ?g "matter rt" "map2 ?g ?dirs ds"] ds by blast
  then have t2: "those (map (\<lambda>i. map_option (?g (?dirs ! i)) (matter rt (cs ! i))) [0..<length ?dirs])
             = Some (map2 ?g ?dirs ds)"
    unfolding idx by (simp only: those_eq_Some_iff)
  show ?thesis
    unfolding getPosts_def Let_def rd option.case t1 t2 ..
qed

lemma getPosts_InrD:
  assumes "getPosts rt = Inr posts"
  obtains entries cs ds where
    "readdir rt ''./public/'' = Some entries"
    "map (\<lambda>dir. readFile rt (index_md dir)) (dirs_of entries) = map Some cs"
    "map (matter rt) cs = map Some ds"
    "posts = Array_sort (comparefn rt)
               (map2 (\<lambda>dir data. [''slug'' \<mapsto> dir] ++ data) (dirs_of entries) ds)"
proof -
  let ?g = "\<lambda>dir data. [''slug'' \<mapsto> dir] ++ (data :: obj)"
  obtain entries where rd: "readdir rt ''./public/'' = Some entries"
    using assms by (cases "readdir rt ''./public/''") (simp_all add: getPosts_def)
  let ?dirs = "dirs_of entries"
  obtain cs where t1: "those (map (\<lambda>dir. readFile rt (index_md dir)) ?dirs) = Some cs"
    using assms unfolding getPosts_def Let_def rd option.case
    by (cases "those (map (\<lambda>dir. readFile rt (index_md dir)) ?dirs)") simp_all
  then have cs: "map (\<lambda>dir. readFile rt (index_md dir)) ?dirs = map Some cs"
    by (simp only: those_eq_Some_iff)
  have len: "length cs = length ?dirs"
    using arg_cong [OF cs, of length] by (simp only: length_map)
  have idx: "map (\<lambda>i. map_option (?g (?dirs ! i)) (matter rt (cs ! i))) [0..<length ?dirs]
             = map2 (\<lambda>dir c. map_option (?g dir) (matter rt c)) ?dirs cs"
    using len by (rule map_index_eq_map2)
  obtain ps where t2: "those (map (\<lambda>i. map_option (?g (?dirs ! i)) (matter rt (cs ! i))) [0..<length ?dirs]) = Some ps"
    using assms unfolding getPosts_def Let_def rd option.case t1
    by (cases "those (map (\<lambda>i. map_option (?g (?dirs ! i)) (matter rt (cs ! i))) [0..<length ?dirs])") simp_all
  then have "map2 (\<lambda>dir c. map_option (?g dir) (matter rt c)) ?dirs cs = map Some ps"
    unfolding idx by (simp only: those_eq_Some_iff)
  then obtain ds where ds: "map (matter rt) cs = map Some ds" "ps = map2 ?g ?dirs ds"
    using map2_map_option_eq [OF len, of ?g "matter rt" ps] by blast
  have "posts = Array_sort (comparefn rt) ps"
    using assms unfolding getPosts_def Let_def rd option.case t1 t2 by simp
  then have "posts = Array_sort (comparefn rt) (map2 ?g ?dirs ds)"
    by (simp only: ds(2))
  with rd cs ds(1) show thesis by (rule that)
qed

lemma foldl_addItem:
  "foldl (\<lambda>feed post. addItem feed (f post)) fd posts = fd\<lparr> items := items fd @ map f posts \<rparr>"
  by (induction posts arbitrary: fd) (simp_all add: addItem_def)

lemma generateFeed_Inr:
  assumes "getPosts rt = Inr posts"
  shows "generateFeed rt =
     Inr \<lparr> options = feedOptions,
           items = map (\<lambda>post.
                     \<lparr> item_date = new_Date rt (post ''date''),
                       item_description = post ''spoiler'',
                       item_id = site_url @ ToString (post ''slug'') @ ''/'',
                       item_link = site_url @ ToString (post ''slug'') @ ''/'',
                       item_title = post ''title'' \<rparr>) posts \<rparr>"
  unfolding generateFeed_def assms sum.case foldl_addItem
  by (simp add: new_Feed_def)

lemma generateFeed_Inl: "getPosts rt = Inl e \<Longrightarrow> generateFeed rt = Inl e"
  by (simp add: generateFeed_def)

lemma getPosts_read_failure:
  assumes rd: "readdir rt ''./public/'' = Some entries"
    and e: "e \<in> set entries" "isDirectory e"
    and miss: "readFile rt (index_md (name e)) = None"
  shows "getPosts rt = Inl ReadError"
proof -
  have "name e \<in> set (dirs_of entries)"
    using e by auto
  then have "None \<in> set (map (\<lambda>dir. readFile rt (index_md dir)) (dirs_of entries))"
    using miss by (metis (mono_tags, lifting) image_eqI list.set_map)
  then have "those (map (\<lambda>dir. readFile rt (index_md dir)) (dirs_of entries)) = None"
    by (simp only: those_eq_None_iff)
  then show ?thesis
    unfolding getPosts_def Let_def rd option.case by simp
qed

lemma slug_of_post:
  "([''slug'' \<mapsto> dir] ++ data) ''slug'' = (case data ''slug'' of None \<Rightarrow> Some dir | Some s \<Rightarrow> Some s)"
  by (simp add: map_add_def split: option.splits)

lemma other_key_of_post:
  "k \<noteq> ''slug'' \<Longrightarrow> ([''slug'' \<mapsto> dir] ++ data) k = data k"
  by (simp add: map_add_def split: option.splits)

lemma set_Array_sort: "set (Array_sort c xs) = set xs"
  using mset_Array_sort [of c xs] by (metis set_mset_mset)

lemma length_Array_sort: "length (Array_sort c xs) = length xs"
  using mset_Array_sort [of c xs] by (metis size_mset)

lemma getPosts_Inr_nth:
  assumes ok: "getPosts rt = Inr posts"
    and rd: "readdir rt ''./public/'' = Some entries"
  obtains cs ds where
    "length cs = length (dirs_of entries)"
    "length ds = length (dirs_of entries)"
    "\<forall>i<length (dirs_of entries).
        readFile rt (index_md (dirs_of entries ! i)) = Some (cs ! i) \<and> matter rt (cs ! i) = Some (ds ! i)"
    "posts = Array_sort (comparefn rt)
               (map2 (\<lambda>dir data. [''slug'' \<mapsto> dir] ++ data) (dirs_of entries) ds)"
proof -
  from ok obtain entries' cs ds where *:
    "readdir rt ''./public/'' = Some entries'"
    "map (\<lambda>dir. readFile rt (index_md dir)) (dirs_of entries') = map Some cs"
    "map (matter rt) cs = map Some ds"
    "posts = Array_sort (comparefn rt)
               (map2 (\<lambda>dir data. [''slug'' \<mapsto> dir] ++ data) (dirs_of entries') ds)"
    by (rule getPosts_InrD)
  from *(1) rd have ee: "entries' = entries" by simp
  note r2 = *(2) [unfolded ee] and r3 = *(3) and r4 = *(4) [unfolded ee]
  let ?dirs = "dirs_of entries"
  have lc: "length cs = length ?dirs"
    using arg_cong [OF r2, of length] by (simp only: length_map)
  have ld: "length ds = length ?dirs"
    using arg_cong [OF r3, of length] lc by (simp only: length_map)
  have nth: "readFile rt (index_md (?dirs ! i)) = Some (cs ! i) \<and> matter rt (cs ! i) = Some (ds ! i)"
    if "i < length ?dirs" for i
  proof
    have "map (\<lambda>dir. readFile rt (index_md dir)) ?dirs ! i = map Some cs ! i"
      using r2 by (rule arg_cong)
    then show "readFile rt (index_md (?dirs ! i)) = Some (cs ! i)"
      using that lc by (simp only: nth_map)
    have "map (matter rt) cs ! i = map Some ds ! i"
      using r3 by (rule arg_cong)
    then show "matter rt (cs ! i) = Some (ds ! i)"
      using that lc ld by (simp only: nth_map)
  qed
  from nth have "\<forall>i<length ?dirs.
      readFile rt (index_md (?dirs ! i)) = Some (cs ! i) \<and> matter rt (cs ! i) = Some (ds ! i)"
    by blast
  with lc ld show thesis
    using r4 by (rule that)
qed

lemma getPosts_member:
  assumes ok: "getPosts rt = Inr posts"
    and rd: "readdir rt ''./public/'' = Some entries"
    and e: "e \<in> set entries" "isDirectory e"
    and c: "readFile rt (index_md (name e)) = Some c"
    and d: "matter rt c = Some data"
  shows "[''slug'' \<mapsto> name e] ++ data \<in> set posts"
proof -
  let ?dirs = "dirs_of entries"
  from ok rd obtain cs ds where *:
    "length cs = length ?dirs" "length ds = length ?dirs"
    "\<forall>i<length ?dirs.
        readFile rt (index_md (?dirs ! i)) = Some (cs ! i) \<and> matter rt (cs ! i) = Some (ds ! i)"
    "posts = Array_sort (comparefn rt)
               (map2 (\<lambda>dir data. [''slug'' \<mapsto> dir] ++ data) ?dirs ds)"
    by (rule getPosts_Inr_nth)
  have "name e \<in> set ?dirs" using e by auto
  then obtain i where i: "i < length ?dirs" "?dirs ! i = name e"
    by (auto simp only: in_set_conv_nth)
  from *(3) i(1) have ri: "readFile rt (index_md (?dirs ! i)) = Some (cs ! i)"
    and mi: "matter rt (cs ! i) = Some (ds ! i)"
    by blast+
  from ri i(2) c have "cs ! i = c" by simp
  with mi d have di: "ds ! i = data" by simp
  have "map2 (\<lambda>dir data. [''slug'' \<mapsto> dir] ++ data) ?dirs ds ! i = [''slug'' \<mapsto> name e] ++ data"
    using i *(2) di by simp
  moreover have "i < length (map2 (\<lambda>dir data. [''slug'' \<mapsto> dir] ++ data) ?dirs ds)"
    using i *(2) by simp
  ultimately have "[''slug'' \<mapsto> name e] ++ data \<in> set (map2 (\<lambda>dir data. [''slug'' \<mapsto> dir] ++ data) ?dirs ds)"
    by (metis nth_mem)
  then show ?thesis
    unfolding *(4) set_Array_sort .
qed

lemma getPosts_succeeds:
  assumes rd: "readdir rt ''./public/'' = Some entries"
    and all: "\<forall>e\<in>set entries. isDirectory e \<longrightarrow>
        (\<exists>c d. readFile rt (index_md (name e)) = Some c \<and> matter rt c = Some d)"
  shows "\<exists>posts. getPosts rt = Inr posts"
proof -
  let ?dirs = "dirs_of entries"
  let ?cs = "map (\<lambda>dir. the (readFile rt (index_md dir))) ?dirs"
  let ?ds = "map (\<lambda>c. the (matter rt c)) ?cs"
  have ex: "\<exists>c d. readFile rt (index_md dir) = Some c \<and> matter rt c = Some d" if "dir \<in> set ?dirs" for dir
    using that all by auto
  have "map (\<lambda>dir. readFile rt (index_md dir)) ?dirs = map Some ?cs"
    unfolding map_map by (rule map_cong [OF refl]) (use ex in fastforce)
  moreover have "map (matter rt) ?cs = map Some ?ds"
    unfolding map_map by (rule map_cong [OF refl]) (use ex in fastforce)
  ultimately show ?thesis
    using getPosts_InrI [OF rd] by blast
qed

lemma comparefn_le_0_iff:
  assumes "post_time rt a = Some x" "post_time rt b = Some y"
  shows "comparefn rt a b \<le> 0 \<longleftrightarrow> y \<le> x"
  using assms by (auto simp: comparefn_def post_time_def)

lemma comparefn_cases:
  "comparefn rt a b =
     (if \<exists>x y. post_time rt a = Some x \<and> post_time rt b = Some y \<and> x < y then 1 else - 1)"
  unfolding comparefn_def post_time_def
  by (cases "Date_parse rt (ToString (a ''date''))"; cases "Date_parse rt (ToString (b ''date''))")
     auto

lemma getPosts_sorted_wrt:
  assumes ok: "getPosts rt = Inr posts"
    and parse: "\<forall>p\<in>set posts. post_time rt p \<noteq> None"
  shows "sorted_wrt (\<lambda>a b. the (post_time rt b) \<le> the (post_time rt a)) posts"
proof -
  from ok obtain xs where xs: "posts = Array_sort (comparefn rt) xs"
    by (rule getPosts_InrD)
  have "\<forall>a\<in>set xs. \<forall>b\<in>set xs.
      (comparefn rt a b \<le> 0) = (the (post_time rt b) \<le> the (post_time rt a))"
  proof (intro ballI)
    fix a b assume "a \<in> set xs" "b \<in> set xs"
    then obtain x y where "post_time rt a = Some x" "post_time rt b = Some y"
      using parse unfolding xs set_Array_sort by fastforce
    then show "(comparefn rt a b \<le> 0) = (the (post_time rt b) \<le> the (post_time rt a))"
      using comparefn_le_0_iff [of rt a x b y] by simp
  qed
  then show ?thesis
    unfolding xs by (rule sorted_Array_sort)
qed

lemma getPosts_pairs_ordered:
  assumes ok: "getPosts rt = Inr posts"
    and parse: "\<forall>p\<in>set posts. post_time rt p \<noteq> None"
    and ij: "i < j" "j < length posts"
  shows "\<exists>x y. post_time rt (posts ! i) = Some x \<and> post_time rt (posts ! j) = Some y \<and> y \<le> x"
proof -
  have "the (post_time rt (posts ! j)) \<le> the (post_time rt (posts ! i))"
    using sorted_wrt_nth_less [OF getPosts_sorted_wrt [OF ok parse] ij] .
  moreover have "post_time rt (posts ! i) \<noteq> None" "post_time rt (posts ! j) \<noteq> None"
    using parse ij by simp_all
  ultimately show ?thesis by auto
qed

lemma two_posts_newest_first:
  assumes rd: "readdir rt ''./public/'' = Some entries"
    and dirs: "dirs_of entries = [''old'', ''new''] \<or> dirs_of entries = [''new'', ''old'']"
    and old: "readFile rt (index_md ''old'') = Some c_old" "matter rt c_old = Some d_old"
      "d_old ''slug'' = None" "d_old ''date'' = Some ''2023-01-01''"
    and new: "readFile rt (index_md ''new'') = Some c_new" "matter rt c_new = Some d_new"
      "d_new ''slug'' = None" "d_new ''date'' = Some ''2024-06-01''"
    and t: "Date_parse rt ''2023-01-01'' = Some t_old" "Date_parse rt ''2024-06-01'' = Some t_new"
      "t_old < t_new"
  shows "\<exists>posts. getPosts rt = Inr posts \<and> slugs posts = [Some ''new'', Some ''old'']"
proof -
  let ?o = "[''slug'' \<mapsto> ''old''] ++ d_old"
  let ?n = "[''slug'' \<mapsto> ''new''] ++ d_new"
  have to: "post_time rt ?o = Some t_old" and tn: "post_time rt ?n = Some t_new"
    using old new t by (simp_all add: post_time_def other_key_of_post ToString_def)
  have c1: "comparefn rt ?o ?n = 1" and c2: "comparefn rt ?n ?o = - 1"
    using comparefn_cases [of rt ?o ?n] comparefn_cases [of rt ?n ?o] to tn t(3) by simp_all
  have so: "?o ''slug'' = Some ''old''" and sn: "?n ''slug'' = Some ''new''"
    using old(3) new(3) by (simp_all add: slug_of_post)
  from dirs show ?thesis
  proof
    assume d: "dirs_of entries = [''old'', ''new'']"
    have "map (\<lambda>dir. readFile rt (index_md dir)) (dirs_of entries) = map Some [c_old, c_new]"
      unfolding d using old(1) new(1) by simp
    moreover have "map (matter rt) [c_old, c_new] = map Some [d_old, d_new]"
      using old(2) new(2) by simp
    ultimately have "getPosts rt = Inr (Array_sort (comparefn rt)
        (map2 (\<lambda>dir data. [''slug'' \<mapsto> dir] ++ data) (dirs_of entries) [d_old, d_new]))"
      by (rule getPosts_InrI [OF rd])
    then have "getPosts rt = Inr [?n, ?o]"
      unfolding d by (simp add: Array_sort_def c1)
    then show ?thesis
      using so sn by (simp add: slugs_def)
  next
    assume d: "dirs_of entries = [''new'', ''old'']"
    have "map (\<lambda>dir. readFile rt (index_md dir)) (dirs_of entries) = map Some [c_new, c_old]"
      unfolding d using old(1) new(1) by simp
    moreover have "map (matter rt) [c_new, c_old] = map Some [d_new, d_old]"
      using old(2) new(2) by simp
    ultimately have "getPosts rt = Inr (Array_sort (comparefn rt)
        (map2 (\<lambda>dir data. [''slug'' \<mapsto> dir] ++ data) (dirs_of entries) [d_new, d_old]))"
      by (rule getPosts_InrI [OF rd])
    then have "getPosts rt = Inr [?n, ?o]"
      unfolding d by (simp add: Array_sort_def c2)
    then show ?thesis
      using so sn by (simp add: slugs_def)
  qed
qed

subsection \<open>The sample site, evaluated\<close>

lemma demo_readdir: "readdir (demo_runtime es) ''./public/'' = Some es"
  by (simp add: demo_runtime_def)

lemma demo_readFile:
  "readFile (demo_runtime es) ''./public/old/index.md'' = Some old_md"
  "readFile (demo_runtime es) ''./public/new/index.md'' = Some new_md"
  "readFile (demo_runtime es) ''./public/a/index.md'' = Some a_md"
  "readFile (demo_runtime es) ''./public/b/index.md'' = Some b_md"
  "readFile (demo_runtime es) ''./public/bare/index.md'' = Some bare_md"
  "readFile (demo_runtime es) ''./public/draft/index.md'' = None"
  by (simp_all add: demo_runtime_def demo_files_def)

lemma demo_matter:
  "matter (demo_runtime es) old_md = Some old_data"
  "matter (demo_runtime es) new_md = Some new_data"
  "matter (demo_runtime es) a_md = Some a_data"
  "matter (demo_runtime es) b_md = Some b_data"
  "matter (demo_runtime es) bare_md = Some bare_data"
  by (simp_all add: demo_runtime_def demo_front_matter_def old_md_def new_md_def a_md_def b_md_def
      bare_md_def old_data_def new_data_def a_data_def b_data_def bare_data_def)

lemma demo_Date_parse:
  "Date_parse (demo_runtime es) ''2023-01-01'' = Some 1672531200000"
  "Date_parse (demo_runtime es) ''2024-01-01'' = Some 1704067200000"
  "Date_parse (demo_runtime es) ''2024-06-01'' = Some 1717200000000"
  "Date_parse (demo_runtime es) ''undefined'' = None"
  by (simp_all add: demo_runtime_def demo_dates_def)

lemma demo_dirs:
  "dirs_of [dir_entry ''old'', file_entry ''robots.txt'', dir_entry ''new''] = [''old'', ''new'']"
  "dirs_of [dir_entry ''a'', dir_entry ''b''] = [''a'', ''b'']"
  "dirs_of [dir_entry ''bare'', dir_entry ''old''] = [''bare'', ''old'']"
  "dirs_of [dir_entry ''a''] = [''a'']"
  "dirs_of [dir_entry ''b''] = [''b'']"
  by (simp_all add: dir_entry_def file_entry_def)

lemma demo_post_time:
  "post_time (demo_runtime es) ([''slug'' \<mapsto> dir] ++ old_data) = Some 1672531200000"
  "post_time (demo_runtime es) ([''slug'' \<mapsto> dir] ++ new_data) = Some 1717200000000"
  "post_time (demo_runtime es) ([''slug'' \<mapsto> dir] ++ a_data) = Some 1704067200000"
  "post_time (demo_runtime es) ([''slug'' \<mapsto> dir] ++ b_data) = Some 1672531200000"
  "post_time (demo_runtime es) ([''slug'' \<mapsto> dir] ++ bare_data) = None"
  by (simp_all add: post_time_def other_key_of_post ToString_def demo_Date_parse
      old_data_def new_data_def a_data_def b_data_def bare_data_def)

lemma demo_getPosts_old_new:
  "getPosts (demo_runtime [dir_entry ''old'', file_entry ''robots.txt'', dir_entry ''new''])
     = Inr [[''slug'' \<mapsto> ''new''] ++ new_data, [''slug'' \<mapsto> ''old''] ++ old_data]"
proof -
  let ?es = "[dir_entry ''old'', file_entry ''robots.txt'', dir_entry ''new'']"
  have "map (\<lambda>dir. readFile (demo_runtime ?es) (index_md dir)) (dirs_of ?es) = map Some [old_md, new_md]"
    unfolding demo_dirs by (simp add: demo_readFile)
  moreover have "map (matter (demo_runtime ?es)) [old_md, new_md] = map Some [old_data, new_data]"
    by (simp add: demo_matter)
  ultimately have "getPosts (demo_runtime ?es) = Inr (Array_sort (comparefn (demo_runtime ?es))
      (map2 (\<lambda>dir data. [''slug'' \<mapsto> dir] ++ data) (dirs_of ?es) [old_data, new_data]))"
    by (rule getPosts_InrI [OF demo_readdir])
  then show ?thesis
    unfolding demo_dirs by (simp add: Array_sort_def comparefn_cases demo_post_time)
qed

section \<open>The claims\<close>

subsection \<open>The comparison function\<close>

text \<open>
  Claim C4. The comparison function parses both dates. It answers \<open>1\<close> (\<open>b\<close> goes before
  \<open>a\<close>) exactly when both dates parse and the date of \<open>a\<close> is strictly earlier than the
  date of \<open>b\<close>; in every other case it answers \<open>- 1\<close>. For two equal parsed dates, or when
  one of the two dates does not parse, it answers \<open>- 1\<close> in both argument orders: it never
  puts \<open>b\<close> first, and it does not fix the relative order of such a pair.
\<close>
theorem comparefn_by_parsed_date:
  "(comparefn rt a b = 1 \<longleftrightarrow>
      (\<exists>x y. post_time rt a = Some x \<and> post_time rt b = Some y \<and> x < y))
   \<and> (comparefn rt a b = - 1 \<longleftrightarrow>
      \<not> (\<exists>x y. post_time rt a = Some x \<and> post_time rt b = Some y \<and> x < y))
   \<and> (post_time rt a = post_time rt b \<or> post_time rt a = None \<or> post_time rt b = None
        \<longrightarrow> comparefn rt a b = - 1 \<and> comparefn rt b a = - 1)"
  unfolding comparefn_def post_time_def
  by (cases "Date_parse rt (ToString (a ''date''))"; cases "Date_parse rt (ToString (b ''date''))")
     auto

theorem comparefn_by_parsed_date_witness:
  "comparefn (demo_runtime []) [''date'' \<mapsto> ''2023-01-01''] [''date'' \<mapsto> ''2024-06-01''] = 1
   \<and> comparefn (demo_runtime []) [''date'' \<mapsto> ''2024-06-01''] [''date'' \<mapsto> ''2023-01-01''] = - 1
   \<and> comparefn (demo_runtime []) [''date'' \<mapsto> ''2024-06-01''] [''date'' \<mapsto> ''2024-06-01''] = - 1
   \<and> comparefn (demo_runtime []) [''date'' \<mapsto> ''yesterday''] [''date'' \<mapsto> ''2024-06-01''] = - 1
   \<and> comparefn (demo_runtime []) [''date'' \<mapsto> ''2024-06-01''] [''date'' \<mapsto> ''yesterday''] = - 1"
proof -
  let ?rt = "demo_runtime []"
  let ?old = "[''date'' \<mapsto> ''2023-01-01''] :: obj"
  let ?new = "[''date'' \<mapsto> ''2024-06-01''] :: obj"
  let ?bad = "[''date'' \<mapsto> ''yesterday''] :: obj"
  have t: "post_time ?rt ?old = Some 1672531200000" "post_time ?rt ?new = Some 1717200000000"
    "post_time ?rt ?bad = None"
    by (simp_all add: post_time_def demo_runtime_def demo_dates_def ToString_def)
  show ?thesis
    using comparefn_by_parsed_date [of ?rt ?old ?new] comparefn_by_parsed_date [of ?rt ?new ?old]
      comparefn_by_parsed_date [of ?rt ?new ?new] comparefn_by_parsed_date [of ?rt ?bad ?new]
    unfolding t by simp
qed

subsection \<open>A post without its source file\<close>

text \<open>
  Claim C2. When the listing of the posts root has a subdirectory whose \<^verbatim>\<open>index.md\<close> cannot
  be read, \<^verbatim>\<open>getPosts\<close> fails as a whole with the read error, so it returns no list, also
  not the list of the other posts, and \<^verbatim>\<open>generateFeed\<close> fails with the same error.
\<close>
theorem missing_index_md_fails_whole_load:
  assumes "readdir rt ''./public/'' = Some entries"
    and "e \<in> set entries" and "isDirectory e"
    and "readFile rt (index_md (name e)) = None"
  shows "getPosts rt = Inl ReadError \<and> generateFeed rt = Inl ReadError"
  using getPosts_read_failure [OF assms] generateFeed_Inl by simp

theorem missing_index_md_fails_whole_load_witness:
  "getPosts (demo_runtime [dir_entry ''old'', dir_entry ''draft'', dir_entry ''new'']) = Inl ReadError
   \<and> generateFeed (demo_runtime [dir_entry ''old'', dir_entry ''draft'', dir_entry ''new'']) = Inl ReadError"
proof -
  let ?es = "[dir_entry ''old'', dir_entry ''draft'', dir_entry ''new'']"
  have "readdir (demo_runtime ?es) ''./public/'' = Some ?es"
    by (simp add: demo_runtime_def)
  moreover have "dir_entry ''draft'' \<in> set ?es" by simp
  moreover have "isDirectory (dir_entry ''draft'')" by (simp add: dir_entry_def)
  moreover have "readFile (demo_runtime ?es) (index_md (name (dir_entry ''draft''))) = None"
    by (simp add: demo_runtime_def demo_files_def dir_entry_def)
  ultimately show ?thesis
    by (rule missing_index_md_fails_whole_load)
qed

subsection \<open>An empty posts root\<close>

text \<open>
  Claim C5. When the posts root has no subdirectory, \<^verbatim>\<open>getPosts\<close> returns the empty list
  and \<^verbatim>\<open>generateFeed\<close> returns a feed without entries; neither fails.
\<close>
theorem no_subdirectories_gives_empty_feed:
  assumes "readdir rt ''./public/'' = Some entries"
    and "\<forall>e\<in>set entries. \<not> isDirectory e"
  shows "getPosts rt = Inr [] \<and> (\<exists>feed. generateFeed rt = Inr feed \<and> items feed = [])"
proof -
  have "filter isDirectory entries = []"
    using assms(2) by (simp add: filter_empty_conv)
  then have "getPosts rt = Inr []"
    unfolding getPosts_def Let_def assms(1) option.case by (simp add: Array_sort_def)
  then show ?thesis
    using generateFeed_Inr [of rt "[]"] by simp
qed

theorem no_subdirectories_gives_empty_feed_witness:
  "getPosts (demo_runtime [file_entry ''robots.txt'']) = Inr []
   \<and> (\<exists>feed. generateFeed (demo_runtime [file_entry ''robots.txt'']) = Inr feed \<and> items feed = [])"
proof -
  have "readdir (demo_runtime [file_entry ''robots.txt'']) ''./public/'' = Some [file_entry ''robots.txt'']"
    by (simp add: demo_runtime_def)
  moreover have "\<forall>e\<in>set [file_entry ''robots.txt'']. \<not> isDirectory e"
    by (simp add: file_entry_def)
  ultimately show ?thesis
    by (rule no_subdirectories_gives_empty_feed)
qed

subsection \<open>The feed links\<close>

text \<open>
  Claim C8. The feed links in the options of the feed that \<^verbatim>\<open>generateFeed\<close> returns are the
  site base URL followed by the format name and \<^verbatim>\<open>.xml\<close>.
\<close>
theorem feed_links_are_base_url_plus_format:
  assumes "generateFeed rt = Inr feed"
  shows "feedLinks_atom (options feed) = site_url @ ''atom.xml''
       \<and> feedLinks_rss (options feed) = site_url @ ''rss.xml''
       \<and> feedLinks_atom (options feed) = ''https://github.psriram.com/atom.xml''
       \<and> feedLinks_rss (options feed) = ''https://github.psriram.com/rss.xml''"
proof -
  obtain posts where "getPosts rt = Inr posts"
    using assms by (cases "getPosts rt") (simp_all add: generateFeed_def)
  from generateFeed_Inr [OF this] assms have "options feed = feedOptions"
    by auto
  then show ?thesis
    by (simp add: feedOptions_def site_url_def)
qed

theorem feed_links_are_base_url_plus_format_witness:
  "\<exists>feed. generateFeed (demo_runtime [file_entry ''robots.txt'']) = Inr feed
     \<and> feedLinks_atom (options feed) = ''https://github.psriram.com/atom.xml''
     \<and> feedLinks_rss (options feed) = ''https://github.psriram.com/rss.xml''"
proof -
  have "readdir (demo_runtime [file_entry ''robots.txt'']) ''./public/'' = Some [file_entry ''robots.txt'']"
    by (simp add: demo_runtime_def)
  moreover have "filter isDirectory [file_entry ''robots.txt''] = []"
    by (simp add: file_entry_def)
  ultimately have "getPosts (demo_runtime [file_entry ''robots.txt'']) = Inr []"
    unfolding getPosts_def Let_def by (simp add: Array_sort_def)
  from generateFeed_Inr [OF this]
  obtain feed where feed: "generateFeed (demo_runtime [file_entry ''robots.txt'']) = Inr feed"
    by blast
  from feed_links_are_base_url_plus_format [OF feed] feed show ?thesis
    by blast
qed

subsection \<open>The order of the posts\<close>

text \<open>
  Claim C1. When \<^verbatim>\<open>getPosts\<close> returns a list in which the date of every post parses, the
  list is sorted by parsed date, newest first: for every adjacent pair the time value of
  the first is at least the time value of the second. In particular, a root with exactly
  the two posts \<^verbatim>\<open>old\<close>, dated \<^verbatim>\<open>2023-01-01\<close>, and \<^verbatim>\<open>new\<close>, dated \<^verbatim>\<open>2024-06-01\<close>, whose dates
  parse with the first one earlier, gives the slugs \<^verbatim>\<open>new\<close>, \<^verbatim>\<open>old\<close> in this order, in
  whichever order the directory listing has them.
\<close>
theorem getPosts_sorted_newest_first:
  "(\<forall>posts. getPosts rt = Inr posts \<longrightarrow> (\<forall>p\<in>set posts. post_time rt p \<noteq> None) \<longrightarrow>
      (\<forall>i. Suc i < length posts \<longrightarrow>
         (\<exists>x y. post_time rt (posts ! i) = Some x \<and> post_time rt (posts ! Suc i) = Some y \<and> y \<le> x)))
   \<and> (\<forall>entries c_old d_old c_new d_new t_old t_new.
        readdir rt ''./public/'' = Some entries \<longrightarrow>
        (dirs_of entries = [''old'', ''new''] \<or> dirs_of entries = [''new'', ''old'']) \<longrightarrow>
        readFile rt (index_md ''old'') = Some c_old \<longrightarrow> matter rt c_old = Some d_old \<longrightarrow>
        d_old ''slug'' = None \<longrightarrow> d_old ''date'' = Some ''2023-01-01'' \<longrightarrow>
        readFile rt (index_md ''new'') = Some c_new \<longrightarrow> matter rt c_new = Some d_new \<longrightarrow>
        d_new ''slug'' = None \<longrightarrow> d_new ''date'' = Some ''2024-06-01'' \<longrightarrow>
        Date_parse rt ''2023-01-01'' = Some t_old \<longrightarrow> Date_parse rt ''2024-06-01'' = Some t_new \<longrightarrow>
        t_old < t_new \<longrightarrow>
        (\<exists>posts. getPosts rt = Inr posts \<and> slugs posts = [Some ''new'', Some ''old'']))"
proof (intro conjI allI impI)
  fix posts i
  assume "getPosts rt = Inr posts" "\<forall>p\<in>set posts. post_time rt p \<noteq> None" "Suc i < length posts"
  then show "\<exists>x y. post_time rt (posts ! i) = Some x \<and> post_time rt (posts ! Suc i) = Some y \<and> y \<le> x"
    using getPosts_pairs_ordered [of rt posts i "Suc i"] by simp
next
  fix entries c_old d_old c_new d_new t_old t_new
  assume "readdir rt ''./public/'' = Some entries"
    "dirs_of entries = [''old'', ''new''] \<or> dirs_of entries = [''new'', ''old'']"
    "readFile rt (index_md ''old'') = Some c_old" "matter rt c_old = Some d_old"
    "d_old ''slug'' = None" "d_old ''date'' = Some ''2023-01-01''"
    "readFile rt (index_md ''new'') = Some c_new" "matter rt c_new = Some d_new"
    "d_new ''slug'' = None" "d_new ''date'' = Some ''2024-06-01''"
    "Date_parse rt ''2023-01-01'' = Some t_old" "Date_parse rt ''2024-06-01'' = Some t_new"
    "t_old < t_new"
  then show "\<exists>posts. getPosts rt = Inr posts \<and> slugs posts = [Some ''new'', Some ''old'']"
    by (rule two_posts_newest_first)
qed

theorem getPosts_sorted_newest_first_witness:
  "getPosts (demo_runtime [dir_entry ''old'', file_entry ''robots.txt'', dir_entry ''new''])
     = Inr [[''slug'' \<mapsto> ''new''] ++ new_data, [''slug'' \<mapsto> ''old''] ++ old_data]
   \<and> (\<exists>x y. post_time (demo_runtime [dir_entry ''old'', file_entry ''robots.txt'', dir_entry ''new''])
                ([''slug'' \<mapsto> ''new''] ++ new_data) = Some x
            \<and> post_time (demo_runtime [dir_entry ''old'', file_entry ''robots.txt'', dir_entry ''new''])
                ([''slug'' \<mapsto> ''old''] ++ old_data) = Some y
            \<and> y \<le> x)
   \<and> (\<exists>posts. getPosts (demo_runtime [dir_entry ''old'', file_entry ''robots.txt'', dir_entry ''new''])
                = Inr posts
            \<and> slugs posts = [Some ''new'', Some ''old''])"
proof -
  let ?es = "[dir_entry ''old'', file_entry ''robots.txt'', dir_entry ''new'']"
  let ?rt = "demo_runtime ?es"
  let ?n = "[''slug'' \<mapsto> ''new''] ++ new_data"
  let ?o = "[''slug'' \<mapsto> ''old''] ++ old_data"
  note claim = getPosts_sorted_newest_first [of ?rt]
  have ok: "getPosts ?rt = Inr [?n, ?o]"
    by (rule demo_getPosts_old_new)
  have parse: "\<forall>p\<in>set [?n, ?o]. post_time ?rt p \<noteq> None"
    by (simp add: demo_post_time)
  have first: "\<exists>x y. post_time ?rt ?n = Some x \<and> post_time ?rt ?o = Some y \<and> y \<le> x"
    using claim [THEN conjunct1, rule_format, OF ok parse [rule_format], of 0] by simp
  have dirs: "dirs_of ?es = [''old'', ''new''] \<or> dirs_of ?es = [''new'', ''old'']"
    by (simp add: dir_entry_def file_entry_def)
  have old: "old_data ''slug'' = None" "old_data ''date'' = Some ''2023-01-01''"
    and new: "new_data ''slug'' = None" "new_data ''date'' = Some ''2024-06-01''"
    by (simp_all add: old_data_def new_data_def)
  have lt: "(1672531200000 :: int) < 1717200000000"
    by simp
  have second: "\<exists>posts. getPosts ?rt = Inr posts \<and> slugs posts = [Some ''new'', Some ''old'']"
    using claim [THEN conjunct2, rule_format, OF demo_readdir dirs _ demo_matter(1) old _ demo_matter(2) new
        demo_Date_parse(1) demo_Date_parse(3) lt]
    by (simp add: demo_readFile)
  from ok first second show ?thesis by blast
qed

subsection \<open>The entries of the feed\<close>

lemma getPosts_has_slug:
  assumes ok: "getPosts rt = Inr posts" and p: "p \<in> set posts"
  shows "\<exists>slug. p ''slug'' = Some slug"
proof -
  from ok obtain entries ds where
    "posts = Array_sort (comparefn rt)
       (map2 (\<lambda>dir data. [''slug'' \<mapsto> dir] ++ data) (dirs_of entries) ds)"
    by (rule getPosts_InrD)
  with p have "p \<in> set (map2 (\<lambda>dir data. [''slug'' \<mapsto> dir] ++ data) (dirs_of entries) ds)"
    by (simp only: set_Array_sort)
  then obtain dir data where "p = [''slug'' \<mapsto> dir] ++ data"
    by (auto simp: in_set_zip)
  then show ?thesis
    by (cases "data ''slug''") (simp_all add: slug_of_post)
qed

text \<open>
  Claim C3. The feed that \<^verbatim>\<open>generateFeed\<close> builds from the posts of \<^verbatim>\<open>getPosts\<close> has one
  entry per post, in the order of the list, nothing dropped, merged or cut off. Entry
  \<open>i\<close> takes its title from \<^verbatim>\<open>title\<close> and its description from \<^verbatim>\<open>spoiler\<close> of post \<open>i\<close>; its
  id and its link are the site base URL followed by the slug and a slash; its date is the
  parsed value of \<^verbatim>\<open>date\<close> (an invalid date when the post has no \<^verbatim>\<open>date\<close>).
\<close>
theorem feed_entries_mirror_posts:
  assumes "getPosts rt = Inr posts"
  shows "\<exists>feed. generateFeed rt = Inr feed \<and> length (items feed) = length posts \<and>
     (\<forall>i<length posts.
        item_title (items feed ! i) = (posts ! i) ''title'' \<and>
        item_description (items feed ! i) = (posts ! i) ''spoiler'' \<and>
        (\<exists>slug. (posts ! i) ''slug'' = Some slug \<and>
           item_id (items feed ! i) = site_url @ slug @ ''/'' \<and>
           item_link (items feed ! i) = site_url @ slug @ ''/'') \<and>
        item_date (items feed ! i) =
          (case (posts ! i) ''date'' of None \<Rightarrow> None | Some s \<Rightarrow> Date_parse rt s))"
proof -
  let ?f = "\<lambda>post. \<lparr> item_date = new_Date rt (post ''date''),
                       item_description = post ''spoiler'',
                       item_id = site_url @ ToString (post ''slug'') @ ''/'',
                       item_link = site_url @ ToString (post ''slug'') @ ''/'',
                       item_title = post ''title'' \<rparr>"
  let ?feed = "\<lparr> options = feedOptions, items = map ?f posts \<rparr>"
  have gen: "generateFeed rt = Inr ?feed"
    using assms by (rule generateFeed_Inr)
  have "item_title (items ?feed ! i) = (posts ! i) ''title'' \<and>
        item_description (items ?feed ! i) = (posts ! i) ''spoiler'' \<and>
        (\<exists>slug. (posts ! i) ''slug'' = Some slug \<and>
           item_id (items ?feed ! i) = site_url @ slug @ ''/'' \<and>
           item_link (items ?feed ! i) = site_url @ slug @ ''/'') \<and>
        item_date (items ?feed ! i) =
          (case (posts ! i) ''date'' of None \<Rightarrow> None | Some s \<Rightarrow> Date_parse rt s)"
    if i: "i < length posts" for i
  proof -
    obtain slug where "(posts ! i) ''slug'' = Some slug"
      using getPosts_has_slug [OF assms, of "posts ! i"] i by auto
    then show ?thesis
      using i by (simp add: new_Date_def ToString_def)
  qed
  then have "\<forall>i<length posts.
        item_title (items ?feed ! i) = (posts ! i) ''title'' \<and>
        item_description (items ?feed ! i) = (posts ! i) ''spoiler'' \<and>
        (\<exists>slug. (posts ! i) ''slug'' = Some slug \<and>
           item_id (items ?feed ! i) = site_url @ slug @ ''/'' \<and>
           item_link (items ?feed ! i) = site_url @ slug @ ''/'') \<and>
        item_date (items ?feed ! i) =
          (case (posts ! i) ''date'' of None \<Rightarrow> None | Some s \<Rightarrow> Date_parse rt s)"
    by blast
  moreover have "length (items ?feed) = length posts"
    by simp
  ultimately show ?thesis
    using gen by blast
qed

lemma demo_getPosts_a:
  "getPosts (demo_runtime [dir_entry ''a'']) = Inr [[''slug'' \<mapsto> ''a''] ++ a_data]"
proof -
  let ?es = "[dir_entry ''a'']"
  have "map (\<lambda>dir. readFile (demo_runtime ?es) (index_md dir)) (dirs_of ?es) = map Some [a_md]"
    unfolding demo_dirs by (simp add: demo_readFile)
  moreover have "map (matter (demo_runtime ?es)) [a_md] = map Some [a_data]"
    by (simp add: demo_matter)
  ultimately have "getPosts (demo_runtime ?es) = Inr (Array_sort (comparefn (demo_runtime ?es))
      (map2 (\<lambda>dir data. [''slug'' \<mapsto> dir] ++ data) (dirs_of ?es) [a_data]))"
    by (rule getPosts_InrI [OF demo_readdir])
  then show ?thesis
    unfolding demo_dirs by (simp add: Array_sort_def)
qed

theorem feed_entries_mirror_posts_witness:
  "\<exists>feed. generateFeed (demo_runtime [dir_entry ''a'']) = Inr feed \<and> length (items feed) = 1 \<and>
     item_title (items feed ! 0) = Some ''A'' \<and>
     item_description (items feed ! 0) = Some ''S'' \<and>
     item_id (items feed ! 0) = ''https://github.psriram.com/a/'' \<and>
     item_link (items feed ! 0) = ''https://github.psriram.com/a/'' \<and>
     item_date (items feed ! 0) = Some 1704067200000"
proof -
  let ?rt = "demo_runtime [dir_entry ''a'']"
  let ?p = "[''slug'' \<mapsto> ''a''] ++ a_data"
  from feed_entries_mirror_posts [OF demo_getPosts_a]
  obtain feed where feed: "generateFeed ?rt = Inr feed"
    and len: "length (items feed) = length [?p]"
    and all: "\<forall>i<length [?p].
        item_title (items feed ! i) = ([?p] ! i) ''title'' \<and>
        item_description (items feed ! i) = ([?p] ! i) ''spoiler'' \<and>
        (\<exists>slug. ([?p] ! i) ''slug'' = Some slug \<and>
           item_id (items feed ! i) = site_url @ slug @ ''/'' \<and>
           item_link (items feed ! i) = site_url @ slug @ ''/'') \<and>
        item_date (items feed ! i) =
          (case ([?p] ! i) ''date'' of None \<Rightarrow> None | Some s \<Rightarrow> Date_parse ?rt s)"
    by (elim exE conjE)
  from all have "item_title (items feed ! 0) = ?p ''title'' \<and>
        item_description (items feed ! 0) = ?p ''spoiler'' \<and>
        (\<exists>slug. ?p ''slug'' = Some slug \<and>
           item_id (items feed ! 0) = site_url @ slug @ ''/'' \<and>
           item_link (items feed ! 0) = site_url @ slug @ ''/'') \<and>
        item_date (items feed ! 0) =
          (case ?p ''date'' of None \<Rightarrow> None | Some s \<Rightarrow> Date_parse ?rt s)"
    by simp
  then have "item_title (items feed ! 0) = Some ''A'' \<and>
     item_description (items feed ! 0) = Some ''S'' \<and>
     item_id (items feed ! 0) = ''https://github.psriram.com/a/'' \<and>
     item_link (items feed ! 0) = ''https://github.psriram.com/a/'' \<and>
     item_date (items feed ! 0) = Some 1704067200000"
    by (simp add: slug_of_post other_key_of_post a_data_def site_url_def demo_Date_parse)
  with feed len show ?thesis by simp
qed

subsection \<open>Front-matter without the required fields\<close>

text \<open>
  Claim C6. \<^verbatim>\<open>getPosts\<close> does not validate the front-matter: when every file is read and
  every front-matter block is parsed, it succeeds whatever keys the blocks define. The post
  of a directory has \<^verbatim>\<open>title\<close>, \<^verbatim>\<open>date\<close> and \<^verbatim>\<open>spoiler\<close> exactly as its front-matter has them,
  so a field that is missing there is missing in the post, and the feed entry built from
  that post has no title, no description, or an invalid date.
\<close>
theorem missing_fields_are_not_errors:
  assumes rd: "readdir rt ''./public/'' = Some entries"
    and all: "\<forall>e\<in>set entries. isDirectory e \<longrightarrow>
        (\<exists>c d. readFile rt (index_md (name e)) = Some c \<and> matter rt c = Some d)"
    and e: "e \<in> set entries" "isDirectory e"
    and c: "readFile rt (index_md (name e)) = Some c"
    and d: "matter rt c = Some data"
  shows "\<exists>posts feed. getPosts rt = Inr posts \<and> generateFeed rt = Inr feed \<and>
     length (items feed) = length posts \<and>
     (\<exists>i<length posts.
        posts ! i = [''slug'' \<mapsto> name e] ++ data \<and>
        (posts ! i) ''title'' = data ''title'' \<and>
        (posts ! i) ''date'' = data ''date'' \<and>
        (posts ! i) ''spoiler'' = data ''spoiler'' \<and>
        (data ''title'' = None \<longrightarrow> item_title (items feed ! i) = None) \<and>
        (data ''spoiler'' = None \<longrightarrow> item_description (items feed ! i) = None) \<and>
        (data ''date'' = None \<longrightarrow> item_date (items feed ! i) = None))"
proof -
  let ?p = "[''slug'' \<mapsto> name e] ++ data"
  let ?f = "\<lambda>post. \<lparr> item_date = new_Date rt (post ''date''),
                       item_description = post ''spoiler'',
                       item_id = site_url @ ToString (post ''slug'') @ ''/'',
                       item_link = site_url @ ToString (post ''slug'') @ ''/'',
                       item_title = post ''title'' \<rparr>"
  from getPosts_succeeds [OF rd all] obtain posts where ok: "getPosts rt = Inr posts"
    by blast
  let ?feed = "\<lparr> options = feedOptions, items = map ?f posts \<rparr>"
  have gen: "generateFeed rt = Inr ?feed"
    using ok by (rule generateFeed_Inr)
  have "?p \<in> set posts"
    using ok rd e c d by (rule getPosts_member)
  then obtain i where i: "i < length posts" "posts ! i = ?p"
    by (auto simp only: in_set_conv_nth)
  have item: "items ?feed ! i = ?f ?p"
    using i by simp
  have "posts ! i = ?p \<and>
        (posts ! i) ''title'' = data ''title'' \<and>
        (posts ! i) ''date'' = data ''date'' \<and>
        (posts ! i) ''spoiler'' = data ''spoiler'' \<and>
        (data ''title'' = None \<longrightarrow> item_title (items ?feed ! i) = None) \<and>
        (data ''spoiler'' = None \<longrightarrow> item_description (items ?feed ! i) = None) \<and>
        (data ''date'' = None \<longrightarrow> item_date (items ?feed ! i) = None)"
    unfolding item i(2) by (simp add: other_key_of_post new_Date_def)
  with i(1) have "i < length posts \<and> (posts ! i = ?p \<and>
        (posts ! i) ''title'' = data ''title'' \<and>
        (posts ! i) ''date'' = data ''date'' \<and>
        (posts ! i) ''spoiler'' = data ''spoiler'' \<and>
        (data ''title'' = None \<longrightarrow> item_title (items ?feed ! i) = None) \<and>
        (data ''spoiler'' = None \<longrightarrow> item_description (items ?feed ! i) = None) \<and>
        (data ''date'' = None \<longrightarrow> item_date (items ?feed ! i) = None))"
    by (rule conjI)
  then have "\<exists>i<length posts. posts ! i = ?p \<and>
        (posts ! i) ''title'' = data ''title'' \<and>
        (posts ! i) ''date'' = data ''date'' \<and>
        (posts ! i) ''spoiler'' = data ''spoiler'' \<and>
        (data ''title'' = None \<longrightarrow> item_title (items ?feed ! i) = None) \<and>
        (data ''spoiler'' = None \<longrightarrow> item_description (items ?feed ! i) = None) \<and>
        (data ''date'' = None \<longrightarrow> item_date (items ?feed ! i) = None)"
    by (rule exI)
  moreover have "length (items ?feed) = length posts"
    by simp
  ultimately have "getPosts rt = Inr posts \<and> generateFeed rt = Inr ?feed \<and>
     length (items ?feed) = length posts \<and>
     (\<exists>i<length posts. posts ! i = ?p \<and>
        (posts ! i) ''title'' = data ''title'' \<and>
        (posts ! i) ''date'' = data ''date'' \<and>
        (posts ! i) ''spoiler'' = data ''spoiler'' \<and>
        (data ''title'' = None \<longrightarrow> item_title (items ?feed ! i) = None) \<and>
        (data ''spoiler'' = None \<longrightarrow> item_description (items ?feed ! i) = None) \<and>
        (data ''date'' = None \<longrightarrow> item_date (items ?feed ! i) = None))"
    using ok gen by (iprover intro: conjI)
  then show ?thesis
    by - (rule exI [of _ posts], rule exI [of _ ?feed], assumption)
qed

theorem missing_fields_are_not_errors_witness:
  "\<exists>posts feed.
     getPosts (demo_runtime [dir_entry ''bare'', dir_entry ''old'']) = Inr posts \<and>
     generateFeed (demo_runtime [dir_entry ''bare'', dir_entry ''old'']) = Inr feed \<and>
     (\<exists>i<length posts.
        (posts ! i) ''slug'' = Some ''bare'' \<and>
        (posts ! i) ''title'' = None \<and> (posts ! i) ''date'' = None \<and> (posts ! i) ''spoiler'' = None \<and>
        item_title (items feed ! i) = None \<and>
        item_description (items feed ! i) = None \<and>
        item_date (items feed ! i) = None)"
proof -
  let ?es = "[dir_entry ''bare'', dir_entry ''old'']"
  let ?rt = "demo_runtime ?es"
  have all: "\<forall>e\<in>set ?es. isDirectory e \<longrightarrow>
        (\<exists>c d. readFile ?rt (index_md (name e)) = Some c \<and> matter ?rt c = Some d)"
    by (simp add: dir_entry_def demo_readFile demo_matter)
  have e: "dir_entry ''bare'' \<in> set ?es" "isDirectory (dir_entry ''bare'')"
    by (simp_all add: dir_entry_def)
  have c: "readFile ?rt (index_md (name (dir_entry ''bare''))) = Some bare_md"
    by (simp add: dir_entry_def demo_readFile)
  have none: "bare_data ''title'' = None" "bare_data ''date'' = None" "bare_data ''spoiler'' = None"
    "bare_data ''slug'' = None"
    by (simp_all add: bare_data_def)
  from missing_fields_are_not_errors [OF demo_readdir all e c demo_matter(5)]
  obtain posts feed i where ok: "getPosts ?rt = Inr posts" and gen: "generateFeed ?rt = Inr feed"
    and len: "length (items feed) = length posts"
    and i: "i < length posts"
    and p: "posts ! i = [''slug'' \<mapsto> name (dir_entry ''bare'')] ++ bare_data"
    and f: "(posts ! i) ''title'' = bare_data ''title''"
      "(posts ! i) ''date'' = bare_data ''date''"
      "(posts ! i) ''spoiler'' = bare_data ''spoiler''"
    and g: "bare_data ''title'' = None \<longrightarrow> item_title (items feed ! i) = None"
      "bare_data ''spoiler'' = None \<longrightarrow> item_description (items feed ! i) = None"
      "bare_data ''date'' = None \<longrightarrow> item_date (items feed ! i) = None"
    by (elim exE conjE)
  have slug: "(posts ! i) ''slug'' = Some ''bare''"
    unfolding p by (simp add: slug_of_post none dir_entry_def)
  have "i < length posts \<and> ((posts ! i) ''slug'' = Some ''bare'' \<and>
        (posts ! i) ''title'' = None \<and> (posts ! i) ''date'' = None \<and> (posts ! i) ''spoiler'' = None \<and>
        item_title (items feed ! i) = None \<and>
        item_description (items feed ! i) = None \<and>
        item_date (items feed ! i) = None)"
    using i slug f g none by simp
  then have "\<exists>i<length posts. (posts ! i) ''slug'' = Some ''bare'' \<and>
        (posts ! i) ''title'' = None \<and> (posts ! i) ''date'' = None \<and> (posts ! i) ''spoiler'' = None \<and>
        item_title (items feed ! i) = None \<and>
        item_description (items feed ! i) = None \<and>
        item_date (items feed ! i) = None"
    by (rule exI)
  with ok gen have "getPosts ?rt = Inr posts \<and> generateFeed ?rt = Inr feed \<and>
     (\<exists>i<length posts. (posts ! i) ''slug'' = Some ''bare'' \<and>
        (posts ! i) ''title'' = None \<and> (posts ! i) ''date'' = None \<and> (posts ! i) ''spoiler'' = None \<and>
        item_title (items feed ! i) = None \<and>
        item_description (items feed ! i) = None \<and>
        item_date (items feed ! i) = None)"
    by (iprover intro: conjI)
  then show ?thesis
    by - (rule exI [of _ posts], rule exI [of _ feed], assumption)
qed

subsection \<open>Slugs\<close>

lemma mset_slugs_Array_sort:
  "mset (slugs (Array_sort c xs)) = mset (slugs xs)"
  unfolding slugs_def mset_map mset_Array_sort ..

lemma demo_getPosts_a_b:
  "getPosts (demo_runtime [dir_entry ''a'', dir_entry ''b''])
     = Inr [[''slug'' \<mapsto> ''a''] ++ a_data, [''slug'' \<mapsto> ''b''] ++ b_data]"
proof -
  let ?es = "[dir_entry ''a'', dir_entry ''b'']"
  have "map (\<lambda>dir. readFile (demo_runtime ?es) (index_md dir)) (dirs_of ?es) = map Some [a_md, b_md]"
    unfolding demo_dirs by (simp add: demo_readFile)
  moreover have "map (matter (demo_runtime ?es)) [a_md, b_md] = map Some [a_data, b_data]"
    by (simp add: demo_matter)
  ultimately have "getPosts (demo_runtime ?es) = Inr (Array_sort (comparefn (demo_runtime ?es))
      (map2 (\<lambda>dir data. [''slug'' \<mapsto> dir] ++ data) (dirs_of ?es) [a_data, b_data]))"
    by (rule getPosts_InrI [OF demo_readdir])
  then show ?thesis
    unfolding demo_dirs by (simp add: Array_sort_def comparefn_cases demo_post_time)
qed

lemma demo_slugs_a_b:
  "slugs [[''slug'' \<mapsto> ''a''] ++ a_data, [''slug'' \<mapsto> ''b''] ++ b_data] = [Some ''a'', Some ''a'']"
  by (simp add: slugs_def slug_of_post a_data_def b_data_def)

text \<open>
  The slugs of a root with two distinct directory names need not be distinct: in the
  sample site, the front-matter of \<^verbatim>\<open>b\<close> defines \<^verbatim>\<open>slug: a\<close>, and both posts of the root with
  the directories \<^verbatim>\<open>a\<close> and \<^verbatim>\<open>b\<close> get the slug \<^verbatim>\<open>a\<close>.
\<close>

theorem slug_uniqueness_counterexample:
  "distinct (dirs_of [dir_entry ''a'', dir_entry ''b''])
   \<and> \<not> isl (getPosts (demo_runtime [dir_entry ''a'', dir_entry ''b'']))
   \<and> \<not> distinct (slugs (projr (getPosts (demo_runtime [dir_entry ''a'', dir_entry ''b'']))))"
  unfolding demo_getPosts_a_b demo_dirs sum.sel demo_slugs_a_b by simp

text \<open>
  Claim C7, amended. When the directory names of the posts root are pairwise distinct and
  no front-matter block defines the key \<^verbatim>\<open>slug\<close>, the slugs of the posts that \<^verbatim>\<open>getPosts\<close>
  returns are pairwise distinct, and they are exactly the names of the subdirectories
  (entries that are not directories contribute nothing). The slug of each post is the name
  of its own directory: of the directory whose \<^verbatim>\<open>index.md\<close> holds the front-matter that the
  other keys of the post come from.
\<close>

theorem slugs_distinct_without_front_matter_slug:
  assumes ok: "getPosts rt = Inr posts"
    and rd: "readdir rt ''./public/'' = Some entries"
    and dist: "distinct (dirs_of entries)"
    and noslug: "\<forall>dir\<in>set (dirs_of entries). \<forall>c data.
        readFile rt (index_md dir) = Some c \<longrightarrow> matter rt c = Some data \<longrightarrow> data ''slug'' = None"
  shows "distinct (slugs posts) \<and> mset (slugs posts) = mset (map Some (dirs_of entries)) \<and>
     (\<forall>p\<in>set posts. \<exists>dir\<in>set (dirs_of entries). \<exists>c data.
         readFile rt (index_md dir) = Some c \<and> matter rt c = Some data \<and>
         p ''slug'' = Some dir \<and> (\<forall>k. k \<noteq> ''slug'' \<longrightarrow> p k = data k))"
proof -
  let ?dirs = "dirs_of entries"
  let ?g = "\<lambda>dir data. [''slug'' \<mapsto> dir] ++ (data :: obj)"
  from ok rd obtain cs ds where *:
    "length cs = length ?dirs" "length ds = length ?dirs"
    "\<forall>i<length ?dirs.
        readFile rt (index_md (?dirs ! i)) = Some (cs ! i) \<and> matter rt (cs ! i) = Some (ds ! i)"
    "posts = Array_sort (comparefn rt)
               (map2 (\<lambda>dir data. [''slug'' \<mapsto> dir] ++ data) ?dirs ds)"
    by (rule getPosts_Inr_nth)
  have rf: "readFile rt (index_md (?dirs ! i)) = Some (cs ! i)"
    and mt: "matter rt (cs ! i) = Some (ds ! i)" if "i < length ?dirs" for i
    using *(3) that by blast+
  have none: "(ds ! i) ''slug'' = None" if "i < length ?dirs" for i
  proof -
    have "?dirs ! i \<in> set ?dirs"
      using that by (rule nth_mem)
    with noslug rf [OF that] mt [OF that] show ?thesis
      by blast
  qed
  have "slugs (map2 ?g ?dirs ds) = map Some ?dirs"
  proof (rule nth_equalityI)
    show "length (slugs (map2 ?g ?dirs ds)) = length (map Some ?dirs)"
      using *(2) by (simp add: slugs_def)
  next
    fix i assume "i < length (slugs (map2 ?g ?dirs ds))"
    then have i: "i < length ?dirs"
      using *(2) by (simp add: slugs_def)
    then show "slugs (map2 ?g ?dirs ds) ! i = map Some ?dirs ! i"
      using *(2) none [OF i] by (simp add: slugs_def slug_of_post)
  qed
  then have m: "mset (slugs posts) = mset (map Some ?dirs)"
    unfolding *(4) mset_slugs_Array_sort by simp
  have "distinct (map Some ?dirs)"
    using dist by (simp only: distinct_map) (simp add: inj_on_def)
  then have d: "distinct (slugs posts)"
    using mset_eq_imp_distinct_iff [OF m] by simp
  have own: "\<forall>p\<in>set posts. \<exists>dir\<in>set ?dirs. \<exists>c data.
         readFile rt (index_md dir) = Some c \<and> matter rt c = Some data \<and>
         p ''slug'' = Some dir \<and> (\<forall>k. k \<noteq> ''slug'' \<longrightarrow> p k = data k)"
  proof
    fix p assume "p \<in> set posts"
    then have "p \<in> set (map2 ?g ?dirs ds)"
      unfolding *(4) set_Array_sort .
    then obtain i where il: "i < length (map2 ?g ?dirs ds)" and pi: "map2 ?g ?dirs ds ! i = p"
      unfolding in_set_conv_nth by (elim exE conjE)
    from il have i: "i < length ?dirs"
      using *(2) by simp
    have p: "p = ?g (?dirs ! i) (ds ! i)"
      using pi i *(2) by simp
    have mem: "?dirs ! i \<in> set ?dirs"
      using i by (rule nth_mem)
    have slug: "p ''slug'' = Some (?dirs ! i)"
      unfolding p using none [OF i] by (simp only: slug_of_post option.case)
    have keys: "\<forall>k. k \<noteq> ''slug'' \<longrightarrow> p k = (ds ! i) k"
      unfolding p by (intro allI impI) (rule other_key_of_post)
    have "readFile rt (index_md (?dirs ! i)) = Some (cs ! i) \<and> matter rt (cs ! i) = Some (ds ! i) \<and>
         p ''slug'' = Some (?dirs ! i) \<and> (\<forall>k. k \<noteq> ''slug'' \<longrightarrow> p k = (ds ! i) k)"
      using rf [OF i] mt [OF i] slug keys by (iprover intro: conjI)
    then have "\<exists>c data. readFile rt (index_md (?dirs ! i)) = Some c \<and> matter rt c = Some data \<and>
         p ''slug'' = Some (?dirs ! i) \<and> (\<forall>k. k \<noteq> ''slug'' \<longrightarrow> p k = data k)"
      by - (rule exI [of _ "cs ! i"], rule exI [of _ "ds ! i"], assumption)
    with mem show "\<exists>dir\<in>set ?dirs. \<exists>c data.
         readFile rt (index_md dir) = Some c \<and> matter rt c = Some data \<and>
         p ''slug'' = Some dir \<and> (\<forall>k. k \<noteq> ''slug'' \<longrightarrow> p k = data k)"
      by (rule bexI [of _ "?dirs ! i", rotated])
  qed
  from d m own show ?thesis
    by (iprover intro: conjI)
qed

theorem slugs_distinct_without_front_matter_slug_witness:
  "getPosts (demo_runtime [dir_entry ''old'', file_entry ''robots.txt'', dir_entry ''new''])
     = Inr [[''slug'' \<mapsto> ''new''] ++ new_data, [''slug'' \<mapsto> ''old''] ++ old_data]
   \<and> distinct (slugs [[''slug'' \<mapsto> ''new''] ++ new_data, [''slug'' \<mapsto> ''old''] ++ old_data])
   \<and> mset (slugs [[''slug'' \<mapsto> ''new''] ++ new_data, [''slug'' \<mapsto> ''old''] ++ old_data])
       = mset (map Some [''old'', ''new''])
   \<and> (\<exists>dir c data.
          readFile (demo_runtime [dir_entry ''old'', file_entry ''robots.txt'', dir_entry ''new''])
            (index_md dir) = Some c \<and>
          matter (demo_runtime [dir_entry ''old'', file_entry ''robots.txt'', dir_entry ''new'']) c
            = Some data \<and>
          ([''slug'' \<mapsto> ''new''] ++ new_data) ''slug'' = Some dir \<and>
          ([''slug'' \<mapsto> ''new''] ++ new_data) ''title'' = data ''title'')
   \<and> (\<exists>dir c data.
          readFile (demo_runtime [dir_entry ''old'', file_entry ''robots.txt'', dir_entry ''new''])
            (index_md dir) = Some c \<and>
          matter (demo_runtime [dir_entry ''old'', file_entry ''robots.txt'', dir_entry ''new'']) c
            = Some data \<and>
          ([''slug'' \<mapsto> ''old''] ++ old_data) ''slug'' = Some dir \<and>
          ([''slug'' \<mapsto> ''old''] ++ old_data) ''title'' = data ''title'')"
proof -
  let ?es = "[dir_entry ''old'', file_entry ''robots.txt'', dir_entry ''new'']"
  let ?rt = "demo_runtime ?es"
  define pn where "pn = [''slug'' \<mapsto> ''new''] ++ new_data"
  define po where "po = [''slug'' \<mapsto> ''old''] ++ old_data"
  have ok: "getPosts ?rt = Inr [pn, po]"
    unfolding pn_def po_def by (rule demo_getPosts_old_new)
  have dist: "distinct (dirs_of ?es)"
    unfolding demo_dirs by simp
  have noslug: "\<forall>dir\<in>set (dirs_of ?es). \<forall>c data.
        readFile ?rt (index_md dir) = Some c \<longrightarrow>
        matter ?rt c = Some data \<longrightarrow> data ''slug'' = None"
    unfolding demo_dirs
    by (auto simp: demo_readFile demo_matter old_data_def new_data_def)
  note claim = slugs_distinct_without_front_matter_slug [OF ok demo_readdir dist noslug, unfolded demo_dirs]
  have d: "distinct (slugs [pn, po])" and m: "mset (slugs [pn, po]) = mset (map Some [''old'', ''new''])"
    and own: "\<forall>p\<in>set [pn, po]. \<exists>dir\<in>set [''old'', ''new'']. \<exists>c data.
         readFile ?rt (index_md dir) = Some c \<and> matter ?rt c = Some data \<and>
         p ''slug'' = Some dir \<and> (\<forall>k. k \<noteq> ''slug'' \<longrightarrow> p k = data k)"
    using claim by (iprover elim: conjE)+
  have one: "\<exists>dir c data. readFile ?rt (index_md dir) = Some c \<and> matter ?rt c = Some data \<and>
      p ''slug'' = Some dir \<and> p ''title'' = data ''title''" if "p \<in> set [pn, po]" for p
  proof -
    from own that obtain dir c data where
      r: "readFile ?rt (index_md dir) = Some c" and mt: "matter ?rt c = Some data"
      and s: "p ''slug'' = Some dir" and k: "\<forall>k. k \<noteq> ''slug'' \<longrightarrow> p k = data k"
      by (elim ballE bexE exE conjE) (assumption, erule notE, assumption)
    have "p ''title'' = data ''title''"
      using k [rule_format, of "''title''"] by simp
    with r mt s have "readFile ?rt (index_md dir) = Some c \<and> matter ?rt c = Some data \<and>
      p ''slug'' = Some dir \<and> p ''title'' = data ''title''"
      by (iprover intro: conjI)
    then show ?thesis
      by - (rule exI [of _ dir], rule exI [of _ c], rule exI [of _ data], assumption)
  qed
  have "pn \<in> set [pn, po]" "po \<in> set [pn, po]"
    by simp_all
  from ok d m one [OF this(1)] one [OF this(2)] show ?thesis
    unfolding pn_def po_def by (iprover intro: conjI)
qed

subsection \<open>One post per subdirectory\<close>

text \<open>
  Claim C10. When \<^verbatim>\<open>getPosts\<close> succeeds, its list has as many posts as the listing has
  directories, and it is a permutation of the posts built from the directories, one per
  directory, each from the front-matter of the \<^verbatim>\<open>index.md\<close> of its directory: sorting drops,
  repeats and invents nothing.
\<close>
theorem one_post_per_subdirectory:
  assumes ok: "getPosts rt = Inr posts"
    and rd: "readdir rt ''./public/'' = Some entries"
  shows "length posts = length (filter isDirectory entries) \<and>
     (\<exists>ds. length ds = length (dirs_of entries) \<and>
        (\<forall>i<length (dirs_of entries). \<exists>c.
            readFile rt (index_md (dirs_of entries ! i)) = Some c \<and> matter rt c = Some (ds ! i)) \<and>
        mset posts = mset (map2 (\<lambda>dir data. [''slug'' \<mapsto> dir] ++ data) (dirs_of entries) ds))"
proof -
  let ?dirs = "dirs_of entries"
  from ok rd obtain cs ds where *:
    "length cs = length ?dirs" "length ds = length ?dirs"
    "\<forall>i<length ?dirs.
        readFile rt (index_md (?dirs ! i)) = Some (cs ! i) \<and> matter rt (cs ! i) = Some (ds ! i)"
    "posts = Array_sort (comparefn rt)
               (map2 (\<lambda>dir data. [''slug'' \<mapsto> dir] ++ data) ?dirs ds)"
    by (rule getPosts_Inr_nth)
  have len: "length posts = length (filter isDirectory entries)"
    unfolding *(4) length_Array_sort using *(2) by simp
  have m: "mset posts = mset (map2 (\<lambda>dir data. [''slug'' \<mapsto> dir] ++ data) ?dirs ds)"
    unfolding *(4) by (rule mset_Array_sort)
  have r: "\<forall>i<length ?dirs. \<exists>c.
            readFile rt (index_md (?dirs ! i)) = Some c \<and> matter rt c = Some (ds ! i)"
    using *(3) by blast
  from *(2) r m have "length ds = length ?dirs \<and>
        (\<forall>i<length ?dirs. \<exists>c.
            readFile rt (index_md (?dirs ! i)) = Some c \<and> matter rt c = Some (ds ! i)) \<and>
        mset posts = mset (map2 (\<lambda>dir data. [''slug'' \<mapsto> dir] ++ data) ?dirs ds)"
    by (iprover intro: conjI)
  then have "\<exists>ds. length ds = length ?dirs \<and>
        (\<forall>i<length ?dirs. \<exists>c.
            readFile rt (index_md (?dirs ! i)) = Some c \<and> matter rt c = Some (ds ! i)) \<and>
        mset posts = mset (map2 (\<lambda>dir data. [''slug'' \<mapsto> dir] ++ data) ?dirs ds)"
    by (rule exI)
  with len show ?thesis ..
qed

theorem one_post_per_subdirectory_witness:
  "getPosts (demo_runtime [dir_entry ''old'', file_entry ''robots.txt'', dir_entry ''new''])
     = Inr [[''slug'' \<mapsto> ''new''] ++ new_data, [''slug'' \<mapsto> ''old''] ++ old_data]
   \<and> length [[''slug'' \<mapsto> ''new''] ++ new_data, [''slug'' \<mapsto> ''old''] ++ old_data]
       = length (filter isDirectory [dir_entry ''old'', file_entry ''robots.txt'', dir_entry ''new''])
   \<and> (\<exists>ds. length ds = 2 \<and>
        mset [[''slug'' \<mapsto> ''new''] ++ new_data, [''slug'' \<mapsto> ''old''] ++ old_data]
          = mset (map2 (\<lambda>dir data. [''slug'' \<mapsto> dir] ++ data) [''old'', ''new''] ds))"
proof -
  let ?es = "[dir_entry ''old'', file_entry ''robots.txt'', dir_entry ''new'']"
  let ?posts = "[[''slug'' \<mapsto> ''new''] ++ new_data, [''slug'' \<mapsto> ''old''] ++ old_data]"
  from one_post_per_subdirectory [OF demo_getPosts_old_new demo_readdir]
  obtain ds where len: "length ?posts = length (filter isDirectory ?es)"
    and ds: "length ds = length (dirs_of ?es)"
      "mset ?posts = mset (map2 (\<lambda>dir data. [''slug'' \<mapsto> dir] ++ data) (dirs_of ?es) ds)"
    by (elim exE conjE)
  from ds have "length ds = 2 \<and>
      mset ?posts = mset (map2 (\<lambda>dir data. [''slug'' \<mapsto> dir] ++ data) [''old'', ''new''] ds)"
    unfolding demo_dirs by simp
  then have "\<exists>ds. length ds = 2 \<and>
      mset ?posts = mset (map2 (\<lambda>dir data. [''slug'' \<mapsto> dir] ++ data) [''old'', ''new''] ds)"
    by (rule exI)
  with demo_getPosts_old_new len show ?thesis
    by (iprover intro: conjI)
qed

subsection \<open>A slug in the front-matter\<close>

lemma getPosts_post_of_directory:
  assumes ok: "getPosts rt = Inr posts"
    and rd: "readdir rt ''./public/'' = Some entries"
    and e: "e \<in> set entries" "isDirectory e"
    and c: "readFile rt (index_md (name e)) = Some c"
    and d: "matter rt c = Some data"
  shows "\<exists>p\<in>set posts.
            (\<forall>k. k \<noteq> ''slug'' \<longrightarrow> p k = data k) \<and>
            (\<forall>s. data ''slug'' = Some s \<longrightarrow> p ''slug'' = Some s) \<and>
            (data ''slug'' = None \<longrightarrow> p ''slug'' = Some (name e))"
proof (rule bexI [of _ "[''slug'' \<mapsto> name e] ++ data"])
  show "[''slug'' \<mapsto> name e] ++ data \<in> set posts"
    using ok rd e c d by (rule getPosts_member)
  show "(\<forall>k. k \<noteq> ''slug'' \<longrightarrow> ([''slug'' \<mapsto> name e] ++ data) k = data k) \<and>
            (\<forall>s. data ''slug'' = Some s \<longrightarrow> ([''slug'' \<mapsto> name e] ++ data) ''slug'' = Some s) \<and>
            (data ''slug'' = None \<longrightarrow> ([''slug'' \<mapsto> name e] ++ data) ''slug'' = Some (name e))"
  proof (intro conjI allI impI)
    fix k :: string assume "k \<noteq> ''slug''"
    then show "([''slug'' \<mapsto> name e] ++ data) k = data k" by (rule other_key_of_post)
  next
    fix s assume "data ''slug'' = Some s"
    then show "([''slug'' \<mapsto> name e] ++ data) ''slug'' = Some s" by (simp only: slug_of_post option.case)
  next
    assume "data ''slug'' = None"
    then show "([''slug'' \<mapsto> name e] ++ data) ''slug'' = Some (name e)" by (simp only: slug_of_post option.case)
  qed
qed


lemma demo_slug_clash:
  "\<exists>rt' entries' posts'.
      readdir rt' ''./public/'' = Some entries' \<and> distinct (dirs_of entries') \<and>
      getPosts rt' = Inr posts' \<and> \<not> distinct (slugs posts')"
proof -
  let ?es = "[dir_entry ''a'', dir_entry ''b'']"
  let ?posts = "[[''slug'' \<mapsto> ''a''] ++ a_data, [''slug'' \<mapsto> ''b''] ++ b_data]"
  have "distinct (dirs_of ?es)"
    unfolding demo_dirs by simp
  moreover have "\<not> distinct (slugs ?posts)"
    unfolding demo_slugs_a_b by simp
  ultimately have "readdir (demo_runtime ?es) ''./public/'' = Some ?es \<and> distinct (dirs_of ?es) \<and>
      getPosts (demo_runtime ?es) = Inr ?posts \<and> \<not> distinct (slugs ?posts)"
    using demo_readdir [of ?es] demo_getPosts_a_b by (iprover intro: conjI)
  then show ?thesis
    by - (rule exI [of _ "demo_runtime ?es"], rule exI [of _ ?es], rule exI [of _ ?posts], assumption)
qed

text \<open>
  Claim C9. The post of a directory has the keys of its front-matter unchanged, and its
  slug is the value of the front-matter key \<^verbatim>\<open>slug\<close> when there is one; only without such a
  key is it the name of the directory. So distinct directory names do not make the slugs
  distinct: there is a posts root with distinct directory names whose posts share a slug.
\<close>
theorem front_matter_slug_overrides_directory_name:
  assumes "getPosts rt = Inr posts"
    and "readdir rt ''./public/'' = Some entries"
    and "e \<in> set entries" and "isDirectory e"
    and "readFile rt (index_md (name e)) = Some c"
    and "matter rt c = Some data"
  shows "(\<exists>p\<in>set posts.
            (\<forall>k. k \<noteq> ''slug'' \<longrightarrow> p k = data k) \<and>
            (\<forall>s. data ''slug'' = Some s \<longrightarrow> p ''slug'' = Some s) \<and>
            (data ''slug'' = None \<longrightarrow> p ''slug'' = Some (name e)))
       \<and> (\<exists>rt' entries' posts'.
            readdir rt' ''./public/'' = Some entries' \<and> distinct (dirs_of entries') \<and>
            getPosts rt' = Inr posts' \<and> \<not> distinct (slugs posts'))"
  using getPosts_post_of_directory [OF assms] demo_slug_clash by (rule conjI)

theorem front_matter_slug_overrides_directory_name_witness:
  "getPosts (demo_runtime [dir_entry ''a'', dir_entry ''b''])
     = Inr [[''slug'' \<mapsto> ''a''] ++ a_data, [''slug'' \<mapsto> ''b''] ++ b_data]
   \<and> (\<exists>p\<in>set [[''slug'' \<mapsto> ''a''] ++ a_data, [''slug'' \<mapsto> ''b''] ++ b_data].
         p ''title'' = Some ''B'' \<and> p ''slug'' = Some ''a'')
   \<and> (\<exists>p\<in>set [[''slug'' \<mapsto> ''a''] ++ a_data, [''slug'' \<mapsto> ''b''] ++ b_data].
         p ''title'' = Some ''A'' \<and> p ''slug'' = Some ''a'')"
proof -
  let ?es = "[dir_entry ''a'', dir_entry ''b'']"
  let ?rt = "demo_runtime ?es"
  let ?posts = "[[''slug'' \<mapsto> ''a''] ++ a_data, [''slug'' \<mapsto> ''b''] ++ b_data]"
  have ea: "dir_entry ''a'' \<in> set ?es" "isDirectory (dir_entry ''a'')"
    and eb: "dir_entry ''b'' \<in> set ?es" "isDirectory (dir_entry ''b'')"
    by (simp_all add: dir_entry_def)
  have ca: "readFile ?rt (index_md (name (dir_entry ''a''))) = Some a_md"
    and cb: "readFile ?rt (index_md (name (dir_entry ''b''))) = Some b_md"
    by (simp_all add: dir_entry_def demo_readFile)
  have da: "a_data ''slug'' = None" "a_data ''title'' = Some ''A''"
    and db: "b_data ''slug'' = Some ''a''" "b_data ''title'' = Some ''B''"
    by (simp_all add: a_data_def b_data_def)
  from front_matter_slug_overrides_directory_name
    [OF demo_getPosts_a_b demo_readdir eb cb demo_matter(4), THEN conjunct1]
  obtain p where p: "p \<in> set ?posts" and pk: "\<forall>k. k \<noteq> ''slug'' \<longrightarrow> p k = b_data k"
    and ps: "\<forall>s. b_data ''slug'' = Some s \<longrightarrow> p ''slug'' = Some s"
    by (elim bexE conjE)
  have "p ''title'' = Some ''B''"
    using pk [rule_format, of "''title''"] db(2) by simp
  moreover have "p ''slug'' = Some ''a''"
    using ps [rule_format, OF db(1)] .
  ultimately have "p ''title'' = Some ''B'' \<and> p ''slug'' = Some ''a''"
    by (rule conjI)
  with p have B: "\<exists>p\<in>set ?posts. p ''title'' = Some ''B'' \<and> p ''slug'' = Some ''a''"
    by (rule bexI [of _ p, rotated])
  from front_matter_slug_overrides_directory_name
    [OF demo_getPosts_a_b demo_readdir ea ca demo_matter(3), THEN conjunct1]
  obtain q where q: "q \<in> set ?posts" and qk: "\<forall>k. k \<noteq> ''slug'' \<longrightarrow> q k = a_data k"
    and qs: "a_data ''slug'' = None \<longrightarrow> q ''slug'' = Some (name (dir_entry ''a''))"
    by (elim bexE conjE)
  have "q ''title'' = Some ''A''"
    using qk [rule_format, of "''title''"] da(2) by simp
  moreover have "q ''slug'' = Some ''a''"
    using qs [rule_format, OF da(1)] by (simp add: dir_entry_def)
  ultimately have "q ''title'' = Some ''A'' \<and> q ''slug'' = Some ''a''"
    by (rule conjI)
  with q have A: "\<exists>p\<in>set ?posts. p ''title'' = Some ''A'' \<and> p ''slug'' = Some ''a''"
    by (rule bexI [of _ q, rotated])
  from demo_getPosts_a_b B A show ?thesis
    by (iprover intro: conjI)
qed

end
